theory Spec2Isabelle
  imports Main "HOL-Library.Char_ord" "HOL-Library.List_Lexorder" "HOL-Library.Product_Lexorder"
begin

section \<open>Data model\<close>

text \<open>
  The script \<^verbatim>\<open>Direct_Root_Leaf_Script.py\<close> reads a YAML document, takes its
  \<^verbatim>\<open>links\<close> sequence as the edge list of a directed graph and builds a table with the
  columns \<^verbatim>\<open>data_type\<close>, \<^verbatim>\<open>collector\<close>, \<^verbatim>\<open>purpose\<close> and \<^verbatim>\<open>text\<close>.

  An element of \<^verbatim>\<open>links\<close> is either a mapping or some other YAML value. Of a mapping only
  the four keys the script reads are kept; \<open>None\<close> is an absent key. A key that is present
  holds a value of the type the script expects (a string, a mapping from category to a
  list of strings, a list of strings). A Python \<^verbatim>\<open>dict\<close> keeps insertion order, so a
  purposes mapping is an association list; its keys are pairwise different.
\<close>

datatype error = YAMLError | AttributeError | KeyError | TypeError

type_synonym purposes_dict = "(string \<times> string list) list"

record link =
  source :: "string option"
  target :: "string option"
  purposes :: "purposes_dict option"
  text_lines :: "string list option"

datatype yaml_item = Mapping link | NotMapping

datatype links_value = LinksList "yaml_item list" | LinksNotList

text \<open>The loaded document: not a mapping, or a mapping with or without the key \<^verbatim>\<open>links\<close>.\<close>

datatype document = NotDict | Dict "links_value option"

record row =
  data_type :: string
  collector :: string
  purpose :: string
  text_col :: string

type_synonym adjacency = "(string \<times> (string \<times> purposes_dict) list) list"

section \<open>Small Python primitives\<close>

text \<open>\<^verbatim>\<open>sep.join(xs)\<close>\<close>

fun str_join :: "string \<Rightarrow> string list \<Rightarrow> string" where
  "str_join sep [] = []"
| "str_join sep [x] = x"
| "str_join sep (x # y # ys) = x @ sep @ str_join sep (y # ys)"

text \<open>\<^verbatim>\<open>link.get(key, '')\<close>: raises \<^verbatim>\<open>AttributeError\<close> on a value that is no mapping.\<close>

fun get_str :: "(link \<Rightarrow> string option) \<Rightarrow> yaml_item \<Rightarrow> error + string" where
  "get_str key (Mapping l) = Inr (case key l of None \<Rightarrow> [] | Some s \<Rightarrow> s)"
| "get_str key NotMapping = Inl AttributeError"

text \<open>A generator expression over \<^verbatim>\<open>links\<close>: the first failing element raises.\<close>

fun collect :: "('a \<Rightarrow> error + 'b) \<Rightarrow> 'a list \<Rightarrow> error + 'b list" where
  "collect f [] = Inr []"
| "collect f (x # xs) =
     (case f x of Inl e \<Rightarrow> Inl e
      | Inr y \<Rightarrow> (case collect f xs of Inl e \<Rightarrow> Inl e | Inr ys \<Rightarrow> Inr (y # ys)))"

section \<open>extract_purposes\<close>

definition extract_purposes :: "purposes_dict \<Rightarrow> string" where
  "extract_purposes ps = (if ps = [] then [] else str_join '', '' (map fst ps))"

section \<open>build_adjacency_list\<close>

text \<open>
  \<^verbatim>\<open>adj_list[source].append((target, purposes))\<close> on a \<^verbatim>\<open>defaultdict(list)\<close>: a new key
  is inserted last, an existing key keeps its place.
\<close>

definition adj_append :: "string \<Rightarrow> string \<times> purposes_dict \<Rightarrow> adjacency \<Rightarrow> adjacency" where
  "adj_append s e adj =
     (if s \<in> fst ` set adj
      then map (\<lambda>(k, es). if k = s then (k, es @ [e]) else (k, es)) adj
      else adj @ [(s, [e])])"

fun build_adjacency_loop :: "yaml_item list \<Rightarrow> adjacency \<Rightarrow> error + adjacency" where
  "build_adjacency_loop [] adj = Inr adj"
| "build_adjacency_loop (NotMapping # ls) adj = Inl AttributeError"
| "build_adjacency_loop (Mapping l # ls) adj =
     (let src = (case source l of None \<Rightarrow> [] | Some s \<Rightarrow> s);
          tgt = (case target l of None \<Rightarrow> [] | Some t \<Rightarrow> t);
          ps = (case purposes l of None \<Rightarrow> [] | Some p \<Rightarrow> p)
      in if src \<noteq> [] \<and> tgt \<noteq> []
         then build_adjacency_loop ls (adj_append src (tgt, ps) adj)
         else build_adjacency_loop ls adj)"

definition build_adjacency_list :: "yaml_item list \<Rightarrow> error + adjacency" where
  "build_adjacency_list links = build_adjacency_loop links []"

section \<open>find_leaf_nodes and find_root_nodes\<close>

definition find_leaf_nodes :: "yaml_item list \<Rightarrow> error + string set" where
  "find_leaf_nodes links =
     (case collect (get_str source) links of Inl e \<Rightarrow> Inl e
      | Inr sources \<Rightarrow>
          (case collect (get_str target) links of Inl e \<Rightarrow> Inl e
           | Inr targets \<Rightarrow> Inr (set targets - set sources)))"

definition find_root_nodes :: "yaml_item list \<Rightarrow> error + string set" where
  "find_root_nodes links =
     (case collect (get_str source) links of Inl e \<Rightarrow> Inl e
      | Inr sources \<Rightarrow>
          (case collect (get_str target) links of Inl e \<Rightarrow> Inl e
           | Inr targets \<Rightarrow> Inr (set sources - set targets)))"

section \<open>get_all_paths_with_purposes\<close>

text \<open>
  The three defaulted parameters are created once, by the outermost call, and every
  recursive call receives the same objects. \<^verbatim>\<open>path = path + [start]\<close> builds a new list,
  so the path is local to a call. \<^verbatim>\<open>purposes_accumulated\<close> is one \<^verbatim>\<open>defaultdict(list)\<close>
  mutated in place by every call, and \<^verbatim>\<open>dict(purposes_accumulated)\<close> is a shallow copy:
  it freezes the keys and shares the list objects. The state therefore holds a store of
  list objects, the live dictionary from category to the address of its list, and the
  results appended so far, each with its frozen dictionary of addresses.
\<close>

record dfs_state =
  heap :: "nat \<Rightarrow> string list"
  next_addr :: nat
  purposes_accumulated :: "(string \<times> nat) list"
  all_paths :: "(string list \<times> (string \<times> nat) list) list"

definition init_state :: dfs_state where
  "init_state = \<lparr>heap = (\<lambda>_. []), next_addr = 0, purposes_accumulated = [], all_paths = []\<rparr>"

text \<open>\<^verbatim>\<open>purposes_accumulated[category].extend(entries)\<close>\<close>

definition extend_category :: "string \<Rightarrow> string list \<Rightarrow> dfs_state \<Rightarrow> dfs_state" where
  "extend_category category entries st =
     (case map_of (purposes_accumulated st) category of
        Some a \<Rightarrow> st\<lparr>heap := (heap st)(a := heap st a @ entries)\<rparr>
      | None \<Rightarrow>
          st\<lparr>heap := (heap st)(next_addr st := entries),
             next_addr := Suc (next_addr st),
             purposes_accumulated := purposes_accumulated st @ [(category, next_addr st)]\<rparr>)"

text \<open>\<^verbatim>\<open>for category in purposes.keys(): ...extend(purposes[category])\<close>\<close>

definition accumulate :: "purposes_dict \<Rightarrow> dfs_state \<Rightarrow> dfs_state" where
  "accumulate ps st = fold (\<lambda>(category, entries). extend_category category entries) ps st"

text \<open>\<^verbatim>\<open>adj_list.get(start, [])\<close>\<close>

definition adj_get :: "adjacency \<Rightarrow> string \<Rightarrow> (string \<times> purposes_dict) list" where
  "adj_get adj k = (case map_of adj k of None \<Rightarrow> [] | Some es \<Rightarrow> es)"

text \<open>The nodes a call may still move to: the targets of the graph not on the path.\<close>

definition admissible :: "adjacency \<Rightarrow> string list \<Rightarrow> string set" where
  "admissible adj path = (\<Union>(k, es) \<in> set adj. fst ` set es) - set path"

lemma finite_admissible: "finite (admissible adj path)"
  by (auto simp: admissible_def)

lemma admissible_shrinks:
  assumes "(n, ps) \<in> set (adj_get adj s)" and "n \<notin> set path"
  shows "card (admissible adj (path @ [n])) < card (admissible adj path)"
proof -
  from assms(1) obtain es where "map_of adj s = Some es" and "(n, ps) \<in> set es"
    by (cases "map_of adj s") (auto simp: adj_get_def)
  then have "(s, es) \<in> set adj"
    by (auto dest: map_of_SomeD)
  with \<open>(n, ps) \<in> set es\<close> assms(2) have "n \<in> admissible adj path"
    by (force simp: admissible_def)
  moreover have "admissible adj (path @ [n]) = admissible adj path - {n}"
    by (auto simp: admissible_def)
  ultimately show ?thesis
    by (metis card_Diff1_less finite_admissible)
qed

text \<open>
  The body of the function with the shared objects made explicit. \<open>path0\<close> is the
  caller's path; the value the Python call returns is dealt with below.
\<close>

function get_all_paths_rec ::
  "adjacency \<Rightarrow> string \<Rightarrow> string \<Rightarrow> string list \<Rightarrow> dfs_state \<Rightarrow> dfs_state" where
  "get_all_paths_rec adj_list start end_node path0 st =
     (if start = end_node
      then st\<lparr>all_paths := all_paths st @ [(path0 @ [start], purposes_accumulated st)]\<rparr>
      else fold (\<lambda>(next_node, ps) s.
                   if next_node \<notin> set (path0 @ [start])
                   then get_all_paths_rec adj_list next_node end_node (path0 @ [start])
                          (accumulate ps s)
                   else s)
             (adj_get adj_list start) st)"
  by pat_completeness auto

lemma get_all_paths_rec_total: "All get_all_paths_rec_dom"
proof (relation "measure (\<lambda>(adj, start, end_node, path0, st). card (admissible adj (path0 @ [start])))")
  show "wf (measure (\<lambda>(adj, start, end_node, path0, st). card (admissible adj (path0 @ [start]))))"
    by simp
next
  fix adj_list start end_node path0 st x xa y xb
  assume "start \<noteq> end_node" "x \<in> set (adj_get adj_list start)" "(xa, y) = x"
    "xa \<notin> set (path0 @ [start])"
  then show "((adj_list, xa, end_node, path0 @ [start], accumulate y xb),
              adj_list, start, end_node, path0, st)
             \<in> measure (\<lambda>(adj, start, end_node, path0, st). card (admissible adj (path0 @ [start])))"
    using admissible_shrinks [of xa y adj_list start "path0 @ [start]"] by simp
qed

termination get_all_paths_rec
  by (rule get_all_paths_rec_total)

text \<open>
  The value of the outermost call, as its caller sees it once the call is over. On
  \<^verbatim>\<open>start == end\<close> the result is appended and the bare \<^verbatim>\<open>return\<close> hands back Python's
  \<^verbatim>\<open>None\<close>, here \<open>None\<close>; otherwise \<^verbatim>\<open>all_paths\<close> is returned, and each frozen
  dictionary is read through the store as it is then.
\<close>

definition snapshot_value :: "dfs_state \<Rightarrow> (string \<times> nat) list \<Rightarrow> purposes_dict" where
  "snapshot_value st snap = map (\<lambda>(category, a). (category, heap st a)) snap"

definition get_all_paths_with_purposes ::
  "adjacency \<Rightarrow> string \<Rightarrow> string \<Rightarrow> (string list \<times> purposes_dict) list option" where
  "get_all_paths_with_purposes adj_list start end_node =
     (let st = get_all_paths_rec adj_list start end_node [] init_state
      in if start = end_node then None
         else Some (map (\<lambda>(path, snap). (path, snapshot_value st snap)) (all_paths st)))"

section \<open>process_yaml_to_organized_data\<close>

definition make_row :: "string \<Rightarrow> string \<Rightarrow> purposes_dict \<Rightarrow> link \<Rightarrow> row" where
  "make_row root leaf inherited_purposes l =
     \<lparr>data_type = leaf, collector = root,
      purpose = extract_purposes inherited_purposes,
      text_col = str_join [CHR 0x0A] (case text_lines l of None \<Rightarrow> [] | Some ts \<Rightarrow> ts)\<rparr>"

text \<open>
  \<^verbatim>\<open>for link in links: if link['source'] == root and link['target'] == leaf: rows.append(...)\<close>.
  Subscripting raises \<^verbatim>\<open>KeyError\<close> on an absent key and \<^verbatim>\<open>TypeError\<close> on a value that
  is no mapping; \<^verbatim>\<open>and\<close> reads \<^verbatim>\<open>link['target']\<close> only when the source matched.
\<close>

fun scan_links ::
  "string \<Rightarrow> string \<Rightarrow> purposes_dict \<Rightarrow> yaml_item list \<Rightarrow> row list \<Rightarrow> error + row list" where
  "scan_links root leaf inh [] rows = Inr rows"
| "scan_links root leaf inh (NotMapping # ls) rows = Inl TypeError"
| "scan_links root leaf inh (Mapping l # ls) rows =
     (case source l of
        None \<Rightarrow> Inl KeyError
      | Some s \<Rightarrow>
          if s \<noteq> root then scan_links root leaf inh ls rows
          else (case target l of
                  None \<Rightarrow> Inl KeyError
                | Some t \<Rightarrow>
                    if t = leaf
                    then scan_links root leaf inh ls (rows @ [make_row root leaf inh l])
                    else scan_links root leaf inh ls rows))"

text \<open>\<^verbatim>\<open>for path, inherited_purposes in paths_with_purposes: ...\<close>\<close>

fun paths_loop ::
  "yaml_item list \<Rightarrow> string \<Rightarrow> string \<Rightarrow> (string list \<times> purposes_dict) list \<Rightarrow> row list
   \<Rightarrow> error + row list" where
  "paths_loop links root leaf [] rows = Inr rows"
| "paths_loop links root leaf ((path, inh) # ps) rows =
     (case scan_links root leaf inh links rows of
        Inl e \<Rightarrow> Inl e
      | Inr rows' \<Rightarrow> paths_loop links root leaf ps rows')"

text \<open>
  The body of \<^verbatim>\<open>for leaf in leaf_nodes\<close>: one call of the enumerator and the loop over
  its result. Iterating over \<^verbatim>\<open>None\<close> raises \<^verbatim>\<open>TypeError\<close>.
\<close>

definition pair_rows ::
  "yaml_item list \<Rightarrow> adjacency \<Rightarrow> string \<Rightarrow> string \<Rightarrow> row list \<Rightarrow> error + row list" where
  "pair_rows links adj_list root leaf rows =
     (case get_all_paths_with_purposes adj_list root leaf of
        None \<Rightarrow> Inl TypeError
      | Some paths_with_purposes \<Rightarrow> paths_loop links root leaf paths_with_purposes rows)"

fun leaves_loop ::
  "yaml_item list \<Rightarrow> adjacency \<Rightarrow> string \<Rightarrow> string list \<Rightarrow> row list \<Rightarrow> error + row list" where
  "leaves_loop links adj_list root [] rows = Inr rows"
| "leaves_loop links adj_list root (leaf # leaves) rows =
     (case pair_rows links adj_list root leaf rows of
        Inl e \<Rightarrow> Inl e
      | Inr rows' \<Rightarrow> leaves_loop links adj_list root leaves rows')"

fun roots_loop ::
  "yaml_item list \<Rightarrow> adjacency \<Rightarrow> string list \<Rightarrow> string list \<Rightarrow> row list \<Rightarrow> error + row list" where
  "roots_loop links adj_list [] leaves rows = Inr rows"
| "roots_loop links adj_list (root # roots) leaves rows =
     (case leaves_loop links adj_list root leaves rows of
        Inl e \<Rightarrow> Inl e
      | Inr rows' \<Rightarrow> roots_loop links adj_list roots leaves rows')"

text \<open>
  \<^verbatim>\<open>df.sort_values(['data_type', 'collector'])\<close> orders the rows by the pair of the two
  columns, strings compared character by character; rows with equal keys keep their
  order. \<^verbatim>\<open>df.drop_duplicates()\<close> keeps the first of equal rows.
\<close>

definition sort_values :: "row list \<Rightarrow> row list" where
  "sort_values rows = sort_key (\<lambda>r. (data_type r, collector r)) rows"

fun drop_duplicates_from :: "'a list \<Rightarrow> 'a list \<Rightarrow> 'a list" where
  "drop_duplicates_from seen [] = []"
| "drop_duplicates_from seen (x # xs) =
     (if x \<in> set seen then drop_duplicates_from seen xs
      else x # drop_duplicates_from (x # seen) xs)"

definition drop_duplicates :: "'a list \<Rightarrow> 'a list" where
  "drop_duplicates rows = drop_duplicates_from [] rows"

text \<open>
  The order in which Python iterates over a \<^verbatim>\<open>set\<close> of strings is chosen by the
  interpreter (string hashing is seeded per process), so it is a parameter here:
  \<open>set_iter\<close> lists the members of a set. It is a proper iteration order when it lists
  each member of a finite set once.
\<close>

definition iteration_order :: "(string set \<Rightarrow> string list) \<Rightarrow> bool" where
  "iteration_order set_iter \<longleftrightarrow>
     (\<forall>S. finite S \<longrightarrow> set (set_iter S) = S \<and> distinct (set_iter S))"

text \<open>The statements of the \<^verbatim>\<open>try\<close> block from \<^verbatim>\<open>adj_list = ...\<close> to \<^verbatim>\<open>return df\<close>.\<close>

definition organize_links ::
  "(string set \<Rightarrow> string list) \<Rightarrow> yaml_item list \<Rightarrow> error + row list" where
  "organize_links set_iter links =
     (case build_adjacency_list links of Inl e \<Rightarrow> Inl e
      | Inr adj_list \<Rightarrow>
     (case find_leaf_nodes links of Inl e \<Rightarrow> Inl e
      | Inr leaf_nodes \<Rightarrow>
     (case find_root_nodes links of Inl e \<Rightarrow> Inl e
      | Inr root_nodes \<Rightarrow>
     (case roots_loop links adj_list (set_iter root_nodes) (set_iter leaf_nodes) [] of
        Inl e \<Rightarrow> Inl e
      | Inr rows \<Rightarrow>
          Inr (if rows = [] then [] else drop_duplicates (sort_values rows))))))"

text \<open>
  The whole \<^verbatim>\<open>try\<close> block. \<^verbatim>\<open>yaml.safe_load\<close> belongs to a library and is a parameter:
  it raises \<^verbatim>\<open>YAMLError\<close> or yields the loaded document.
\<close>

definition try_block ::
  "(string \<Rightarrow> error + document) \<Rightarrow> (string set \<Rightarrow> string list) \<Rightarrow> string \<Rightarrow> error + row list" where
  "try_block safe_load set_iter yaml_content =
     (case safe_load yaml_content of
        Inl e \<Rightarrow> Inl e
      | Inr NotDict \<Rightarrow> Inr []
      | Inr (Dict None) \<Rightarrow> Inr []
      | Inr (Dict (Some LinksNotList)) \<Rightarrow> Inr []
      | Inr (Dict (Some (LinksList links))) \<Rightarrow> organize_links set_iter links)"

text \<open>Both \<^verbatim>\<open>except\<close> clauses return an empty table.\<close>

definition process_yaml_to_organized_data ::
  "(string \<Rightarrow> error + document) \<Rightarrow> (string set \<Rightarrow> string list) \<Rightarrow> string \<Rightarrow> row list" where
  "process_yaml_to_organized_data safe_load set_iter yaml_content =
     (case try_block safe_load set_iter yaml_content of
        Inl e \<Rightarrow> []
      | Inr df \<Rightarrow> df)"

section \<open>Notions used in the statements\<close>

text \<open>The graph without its self-referencing edges.\<close>

definition drop_self_loops :: "adjacency \<Rightarrow> adjacency" where
  "drop_self_loops adj = map (\<lambda>(k, es). (k, filter (\<lambda>(n, ps). n \<noteq> k) es)) adj"

text \<open>An element of \<^verbatim>\<open>links\<close> that is a mapping with both keys \<^verbatim>\<open>source\<close> and \<^verbatim>\<open>target\<close>.\<close>

fun has_endpoints :: "yaml_item \<Rightarrow> bool" where
  "has_endpoints (Mapping l) = (source l \<noteq> None \<and> target l \<noteq> None)"
| "has_endpoints NotMapping = False"

text \<open>
  The table assembler in the words of the specification: a direct edge is an edge whose
  source is the root and whose target is the leaf; each discovered path gives one row for
  each direct edge, with the text of that edge joined by newlines and the category names
  of the path's accumulated purposes joined by a comma and a space.
\<close>

fun spec_direct_edge :: "string \<Rightarrow> string \<Rightarrow> yaml_item \<Rightarrow> bool" where
  "spec_direct_edge root leaf (Mapping l) = (source l = Some root \<and> target l = Some leaf)"
| "spec_direct_edge root leaf NotMapping = False"

fun spec_edge_rows :: "string \<Rightarrow> string \<Rightarrow> purposes_dict \<Rightarrow> yaml_item \<Rightarrow> row list" where
  "spec_edge_rows root leaf inh (Mapping l) =
     (if source l = Some root \<and> target l = Some leaf
      then [\<lparr>data_type = leaf, collector = root,
             purpose = str_join '', '' (map fst inh),
             text_col = str_join [CHR 0x0A] (case text_lines l of None \<Rightarrow> [] | Some ts \<Rightarrow> ts)\<rparr>]
      else [])"
| "spec_edge_rows root leaf inh NotMapping = []"

definition spec_path_rows :: "string \<Rightarrow> string \<Rightarrow> yaml_item list \<Rightarrow> purposes_dict \<Rightarrow> row list" where
  "spec_path_rows root leaf links inh = concat (map (spec_edge_rows root leaf inh) links)"

definition spec_pair_rows ::
  "string \<Rightarrow> string \<Rightarrow> yaml_item list \<Rightarrow> (string list \<times> purposes_dict) list \<Rightarrow> row list" where
  "spec_pair_rows root leaf links paths =
     concat (map (\<lambda>(path, inh). spec_path_rows root leaf links inh) paths)"

text \<open>A pair of a root and a leaf of the edge list for which the enumerator finds a path.\<close>

definition pair_with_path :: "yaml_item list \<Rightarrow> string \<Rightarrow> string \<Rightarrow> bool" where
  "pair_with_path links root leaf =
     (case build_adjacency_list links of Inl e \<Rightarrow> False
      | Inr adj_list \<Rightarrow>
     (case find_root_nodes links of Inl e \<Rightarrow> False
      | Inr root_nodes \<Rightarrow>
     (case find_leaf_nodes links of Inl e \<Rightarrow> False
      | Inr leaf_nodes \<Rightarrow>
          root \<in> root_nodes \<and> leaf \<in> leaf_nodes \<and>
          (case get_all_paths_with_purposes adj_list root leaf of
             None \<Rightarrow> False
           | Some paths \<Rightarrow> paths \<noteq> []))))"

section \<open>Concrete graphs and documents\<close>

text \<open>A node \<open>A\<close> with an edge to the dead end \<open>B\<close> and then an edge to \<open>C\<close>.\<close>

definition sibling_graph :: adjacency where
  "sibling_graph =
     [(''A'', [(''B'', [(''p1'', [''x''])]), (''C'', [(''p2'', [''y''])])])]"

text \<open>The edge from \<open>A\<close> to \<open>C\<close> with purposes \<^verbatim>\<open>{"p2": ["y"]}\<close>.\<close>

definition edge_to_C :: link where
  "edge_to_C =
     \<lparr>source = Some ''A'', target = Some ''C'',
      purposes = Some [(''p2'', [''y''])], text_lines = None\<rparr>"

text \<open>An edge record without the key \<^verbatim>\<open>source\<close>.\<close>

definition link_without_source :: link where
  "link_without_source =
     \<lparr>source = None, target = Some ''B'', purposes = None, text_lines = None\<rparr>"

text \<open>The edge from \<open>A\<close> to \<open>B\<close> with purposes \<^verbatim>\<open>{"p1": ["x"]}\<close> and text \<^verbatim>\<open>["hello"]\<close>.\<close>

definition single_edge :: link where
  "single_edge =
     \<lparr>source = Some ''A'', target = Some ''B'',
      purposes = Some [(''p1'', [''x''])], text_lines = Some [''hello'']\<rparr>"

text \<open>A node with an edge to itself and an edge to \<open>B\<close>.\<close>

definition self_loop_graph :: adjacency where
  "self_loop_graph = [(''A'', [(''A'', [(''q'', [''z''])]), (''B'', [])])]"

text \<open>An edge record from \<open>X\<close> without the key \<^verbatim>\<open>target\<close>, and one from \<open>A\<close>.\<close>

definition link_without_target :: link where
  "link_without_target =
     \<lparr>source = Some ''X'', target = None, purposes = None, text_lines = None\<rparr>"

definition root_link_without_target :: link where
  "root_link_without_target =
     \<lparr>source = Some ''A'', target = None, purposes = None, text_lines = None\<rparr>"

section \<open>Auxiliary facts\<close>

lemma sorted_list_iteration_order: "iteration_order sorted_list_of_set"
  by (simp add: iteration_order_def)

lemma roots_leaves_sets:
  assumes "find_root_nodes links = Inr R" and "find_leaf_nodes links = Inr L"
  shows "\<exists>ss ts. R = set ss - set ts \<and> L = set ts - set ss"
  using assms unfolding find_root_nodes_def find_leaf_nodes_def
  by (auto split: sum.splits)

lemma enumerator_returns_list:
  "start \<noteq> end_node \<Longrightarrow> get_all_paths_with_purposes adj_list start end_node \<noteq> None"
  by (simp add: get_all_paths_with_purposes_def Let_def)

section \<open>The path enumerator\<close>

text \<open>
  C1. Each result of the path enumerator should pair a path with the purposes of the
  edges on that path only. The code does not do so: \<open>sibling_graph\<close> is the adjacency
  list of the two edges from \<open>A\<close> to \<open>B\<close> and from \<open>A\<close> to \<open>C\<close>; searching from \<open>A\<close>
  to \<open>C\<close>, the edge to \<open>B\<close> is explored first and leads nowhere, yet its category
  \<open>p1\<close> stays in the shared dictionary and is returned with the path \<open>[A, C]\<close>, whose
  only edge carries \<open>p2\<close>.
\<close>

theorem sibling_purposes_leak:
  "build_adjacency_list [Mapping single_edge, Mapping edge_to_C] = Inr sibling_graph
   \<and> get_all_paths_with_purposes sibling_graph ''A'' ''C''
     = Some [([''A'', ''C''], [(''p1'', [''x'']), (''p2'', [''y''])])]"
  by (simp add: sibling_graph_def get_all_paths_with_purposes_def init_state_def adj_get_def
      accumulate_def extend_category_def snapshot_value_def build_adjacency_list_def
      single_edge_def edge_to_C_def adj_append_def)

text \<open>
  C2. Called with the start node equal to the end node, the enumerator should return the
  list holding the one-node path with no purposes. The code appends that result to its
  list and then returns nothing: for every graph and node the value of the call is
  \<open>None\<close>.
\<close>

theorem same_start_end_returns_None:
  "get_all_paths_with_purposes adj_list n n = None
   \<and> all_paths (get_all_paths_rec adj_list n n [] init_state) = [([n], [])]"
  by (simp add: get_all_paths_with_purposes_def init_state_def)

section \<open>The boundary detector\<close>

text \<open>
  C3. The root and leaf sets should be built from the non-empty source and target values
  only, so that the empty string is in neither. The code reads an absent key as the
  empty string and keeps it: for the single record \<open>link_without_source\<close> the root set
  is the set holding the empty string.
\<close>

theorem empty_string_in_root_set:
  "find_root_nodes [Mapping link_without_source] = Inr {''''}
   \<and> '''' \<in> projr (find_root_nodes [Mapping link_without_source])"
  by (simp add: find_root_nodes_def link_without_source_def)

text \<open>
  C9. The root set and the leaf set of an edge list are disjoint, so every pair of a root
  and a leaf that the table assembler iterates over has two different nodes, and the
  enumerator called on it returns a list (not the \<open>None\<close> of the one-node case).
\<close>

theorem roots_leaves_disjoint:
  assumes "iteration_order set_iter"
    and "find_root_nodes links = Inr R" and "find_leaf_nodes links = Inr L"
  shows "R \<inter> L = {}
    \<and> (\<forall>root \<in> set (set_iter R). \<forall>leaf \<in> set (set_iter L).
          root \<noteq> leaf \<and> get_all_paths_with_purposes adj_list root leaf \<noteq> None)"
proof -
  from roots_leaves_sets [OF assms(2,3)] obtain ss ts
    where R: "R = set ss - set ts" and L: "L = set ts - set ss" by blast
  have disj: "R \<inter> L = {}" using R L by blast
  have "finite R" "finite L" using R L by simp_all
  with assms(1) have sets: "set (set_iter R) = R" "set (set_iter L) = L"
    by (simp_all add: iteration_order_def)
  have neq: "root \<noteq> leaf" if "root \<in> set (set_iter R)" "leaf \<in> set (set_iter L)"
    for root leaf
    using that sets disj by blast
  show ?thesis
  proof (intro conjI ballI)
    show "R \<inter> L = {}" by (rule disj)
  next
    fix root leaf
    assume "root \<in> set (set_iter R)" "leaf \<in> set (set_iter L)"
    then show "root \<noteq> leaf" by (rule neq)
  next
    fix root leaf
    assume "root \<in> set (set_iter R)" "leaf \<in> set (set_iter L)"
    then have "root \<noteq> leaf" by (rule neq)
    then show "get_all_paths_with_purposes adj_list root leaf \<noteq> None"
      by (rule enumerator_returns_list)
  qed
qed

theorem roots_leaves_disjoint_witness:
  "{''A''} \<inter> {''B''} = ({} :: string set)
   \<and> ''A'' \<noteq> ''B'' \<and> get_all_paths_with_purposes [] ''A'' ''B'' \<noteq> None"
proof -
  have r: "find_root_nodes [Mapping single_edge] = Inr {''A''}"
    by (simp add: find_root_nodes_def single_edge_def)
  have l: "find_leaf_nodes [Mapping single_edge] = Inr {''B''}"
    by (simp add: find_leaf_nodes_def single_edge_def)
  have a: "''A'' \<in> set (sorted_list_of_set {''A''})"
    and b: "''B'' \<in> set (sorted_list_of_set {''B''})"
    by simp_all
  from roots_leaves_disjoint [OF sorted_list_iteration_order r l, of "[]"] a b
  show ?thesis by blast
qed

section \<open>The table\<close>

lemma set_drop_duplicates_from:
  "set (drop_duplicates_from seen xs) = set xs - set seen"
  by (induction xs arbitrary: seen) auto

lemma distinct_drop_duplicates_from: "distinct (drop_duplicates_from seen xs)"
  by (induction xs arbitrary: seen) (auto simp: set_drop_duplicates_from)

lemma sorted_drop_duplicates_from:
  "sorted (map k xs) \<Longrightarrow> sorted (map k (drop_duplicates_from seen xs))"
  by (induction xs arbitrary: seen) (auto simp: set_drop_duplicates_from)

lemma table_of_rows:
  "sorted (map (\<lambda>r. (data_type r, collector r)) (drop_duplicates (sort_values rows)))
   \<and> distinct (drop_duplicates (sort_values rows))
   \<and> set (drop_duplicates (sort_values rows)) = set rows"
  by (simp add: drop_duplicates_def sort_values_def sorted_drop_duplicates_from
      distinct_drop_duplicates_from set_drop_duplicates_from)

lemma organize_links_table:
  assumes "organize_links set_iter links = Inr df"
  shows "sorted (map (\<lambda>r. (data_type r, collector r)) df) \<and> distinct df"
proof -
  from assms obtain rows
    where "df = (if rows = [] then [] else drop_duplicates (sort_values rows))"
    unfolding organize_links_def by (auto split: sum.splits)
  then show ?thesis
    using table_of_rows [of rows] by simp
qed

lemma try_block_table:
  assumes "try_block safe_load set_iter yaml_content = Inr df"
  shows "sorted (map (\<lambda>r. (data_type r, collector r)) df) \<and> distinct df"
proof (cases "\<exists>links. safe_load yaml_content = Inr (Dict (Some (LinksList links)))")
  case True
  then obtain links where "safe_load yaml_content = Inr (Dict (Some (LinksList links)))" ..
  with assms have "organize_links set_iter links = Inr df"
    by (simp add: try_block_def)
  then show ?thesis by (rule organize_links_table)
next
  case False
  with assms have "df = []"
    unfolding try_block_def
    by (auto split: sum.splits document.splits option.splits links_value.splits)
  then show ?thesis by simp
qed

text \<open>
  C6. For every document, loader and iteration order, the table returned by the entry
  point is sorted ascending by the pair (\<open>data_type\<close>, \<open>collector\<close>) and no row occurs
  in it twice, so rows equal in all four fields have collapsed to one.
\<close>

theorem table_sorted_without_duplicates:
  "sorted (map (\<lambda>r. (data_type r, collector r))
      (process_yaml_to_organized_data safe_load set_iter yaml_content))
   \<and> distinct (process_yaml_to_organized_data safe_load set_iter yaml_content)"
proof (cases "try_block safe_load set_iter yaml_content")
  case (Inl e)
  then show ?thesis by (simp add: process_yaml_to_organized_data_def)
next
  case (Inr df)
  with try_block_table [OF Inr] show ?thesis
    by (simp add: process_yaml_to_organized_data_def)
qed

text \<open>
  C5. The entry point always returns a table, and the table is empty when loading the
  document raises, when the document is not a mapping, when it has no key \<^verbatim>\<open>links\<close>,
  when \<^verbatim>\<open>links\<close> is not a sequence, and when anything raises in the \<^verbatim>\<open>try\<close> block.
\<close>

theorem failures_give_empty_table:
  "(safe_load yaml_content = Inl e \<longrightarrow>
      process_yaml_to_organized_data safe_load set_iter yaml_content = [])
   \<and> (safe_load yaml_content = Inr NotDict \<longrightarrow>
      process_yaml_to_organized_data safe_load set_iter yaml_content = [])
   \<and> (safe_load yaml_content = Inr (Dict None) \<longrightarrow>
      process_yaml_to_organized_data safe_load set_iter yaml_content = [])
   \<and> (safe_load yaml_content = Inr (Dict (Some LinksNotList)) \<longrightarrow>
      process_yaml_to_organized_data safe_load set_iter yaml_content = [])
   \<and> (try_block safe_load set_iter yaml_content = Inl e' \<longrightarrow>
      process_yaml_to_organized_data safe_load set_iter yaml_content = [])"
  by (simp add: process_yaml_to_organized_data_def try_block_def)

theorem failures_give_empty_table_witness:
  "process_yaml_to_organized_data (\<lambda>_. Inl YAMLError) sorted_list_of_set ''x'' = []
   \<and> process_yaml_to_organized_data (\<lambda>_. Inr NotDict) sorted_list_of_set ''x'' = []
   \<and> process_yaml_to_organized_data (\<lambda>_. Inr (Dict None)) sorted_list_of_set ''x'' = []
   \<and> process_yaml_to_organized_data (\<lambda>_. Inr (Dict (Some LinksNotList)))
        sorted_list_of_set ''x'' = []
   \<and> process_yaml_to_organized_data (\<lambda>_. Inr (Dict (Some (LinksList [NotMapping]))))
        sorted_list_of_set ''x'' = []"
proof (intro conjI)
  show "process_yaml_to_organized_data (\<lambda>_. Inl YAMLError) sorted_list_of_set ''x'' = []"
    using failures_give_empty_table
      [of "\<lambda>_. Inl YAMLError" "''x''" YAMLError sorted_list_of_set]
    by simp
next
  show "process_yaml_to_organized_data (\<lambda>_. Inr NotDict) sorted_list_of_set ''x'' = []"
    using failures_give_empty_table [of "\<lambda>_. Inr NotDict" "''x''" _ sorted_list_of_set]
    by simp
next
  show "process_yaml_to_organized_data (\<lambda>_. Inr (Dict None)) sorted_list_of_set ''x'' = []"
    using failures_give_empty_table [of "\<lambda>_. Inr (Dict None)" "''x''" _ sorted_list_of_set]
    by simp
next
  show "process_yaml_to_organized_data (\<lambda>_. Inr (Dict (Some LinksNotList)))
        sorted_list_of_set ''x'' = []"
    using failures_give_empty_table
      [of "\<lambda>_. Inr (Dict (Some LinksNotList))" "''x''" _ sorted_list_of_set]
    by simp
next
  have raised: "try_block (\<lambda>_. Inr (Dict (Some (LinksList [NotMapping]))))
      sorted_list_of_set ''x'' = Inl AttributeError"
    by (simp add: try_block_def organize_links_def build_adjacency_list_def)
  show "process_yaml_to_organized_data (\<lambda>_. Inr (Dict (Some (LinksList [NotMapping]))))
        sorted_list_of_set ''x'' = []"
    using failures_give_empty_table
      [of "\<lambda>_. Inr (Dict (Some (LinksList [NotMapping])))" "''x''" _ sorted_list_of_set
        AttributeError] raised
    by simp
qed

lemma singleton_iteration:
  assumes "iteration_order set_iter"
  shows "set_iter {a} = [a]"
proof -
  from assms have s: "set (set_iter {a}) = {a}" and d: "distinct (set_iter {a})"
    by (simp_all add: iteration_order_def)
  from d have "length (set_iter {a}) = card (set (set_iter {a}))"
    by (simp add: distinct_card)
  with s have "length (set_iter {a}) = 1" by simp
  then obtain x where x: "set_iter {a} = [x]"
    by (cases "set_iter {a}") auto
  with s show ?thesis by simp
qed

text \<open>
  C8. For the document whose links are the single edge from \<open>A\<close> to \<open>B\<close> with purposes
  \<^verbatim>\<open>{"p1": ["x"]}\<close> and text \<^verbatim>\<open>["hello"]\<close>, the root set is \<open>{A}\<close>, the leaf set is
  \<open>{B}\<close>, and the entry point returns the one row with \<open>data_type = B\<close>,
  \<open>collector = A\<close>, \<open>purpose = p1\<close>, \<open>text = hello\<close>.
\<close>

theorem single_edge_table:
  assumes "iteration_order set_iter"
    and "safe_load yaml_content = Inr (Dict (Some (LinksList [Mapping single_edge])))"
  shows "find_root_nodes [Mapping single_edge] = Inr {''A''}
    \<and> find_leaf_nodes [Mapping single_edge] = Inr {''B''}
    \<and> process_yaml_to_organized_data safe_load set_iter yaml_content
        = [\<lparr>data_type = ''B'', collector = ''A'', purpose = ''p1'', text_col = ''hello''\<rparr>]"
proof -
  have r: "find_root_nodes [Mapping single_edge] = Inr {''A''}"
    by (simp add: find_root_nodes_def single_edge_def)
  have l: "find_leaf_nodes [Mapping single_edge] = Inr {''B''}"
    by (simp add: find_leaf_nodes_def single_edge_def)
  have adj: "build_adjacency_list [Mapping single_edge]
      = Inr [(''A'', [(''B'', [(''p1'', [''x''])])])]"
    by (simp add: build_adjacency_list_def single_edge_def adj_append_def)
  have paths: "get_all_paths_with_purposes [(''A'', [(''B'', [(''p1'', [''x''])])])] ''A'' ''B''
      = Some [([''A'', ''B''], [(''p1'', [''x''])])]"
    by (simp add: get_all_paths_with_purposes_def init_state_def adj_get_def
        accumulate_def extend_category_def snapshot_value_def)
  have rows: "roots_loop [Mapping single_edge] [(''A'', [(''B'', [(''p1'', [''x''])])])]
      [''A''] [''B''] []
      = Inr [\<lparr>data_type = ''B'', collector = ''A'', purpose = ''p1'', text_col = ''hello''\<rparr>]"
    by (simp add: pair_rows_def paths single_edge_def make_row_def extract_purposes_def)
  have "organize_links set_iter [Mapping single_edge]
      = Inr [\<lparr>data_type = ''B'', collector = ''A'', purpose = ''p1'', text_col = ''hello''\<rparr>]"
    by (simp only: organize_links_def adj r l sum.case singleton_iteration [OF assms(1)] rows)
      (simp add: drop_duplicates_def sort_values_def)
  with assms(2) r l show ?thesis
    by (simp add: process_yaml_to_organized_data_def try_block_def)
qed

theorem single_edge_table_witness:
  "find_root_nodes [Mapping single_edge] = Inr {''A''}
    \<and> find_leaf_nodes [Mapping single_edge] = Inr {''B''}
    \<and> process_yaml_to_organized_data (\<lambda>_. Inr (Dict (Some (LinksList [Mapping single_edge]))))
        sorted_list_of_set ''links: ...''
        = [\<lparr>data_type = ''B'', collector = ''A'', purpose = ''p1'', text_col = ''hello''\<rparr>]"
  by (rule single_edge_table [OF sorted_list_iteration_order]) simp

section \<open>Termination of the search\<close>

lemma admissible_strict_subset:
  assumes "(n, ps) \<in> set (adj_get adj s)" and "n \<notin> set path"
  shows "admissible adj (path @ [n]) \<subset> admissible adj path"
proof -
  from assms(1) obtain es where "map_of adj s = Some es" and "(n, ps) \<in> set es"
    by (cases "map_of adj s") (auto simp: adj_get_def)
  then have "(s, es) \<in> set adj"
    by (auto dest: map_of_SomeD)
  with \<open>(n, ps) \<in> set es\<close> assms(2) have "n \<in> admissible adj path"
    by (force simp: admissible_def)
  moreover have "admissible adj (path @ [n]) = admissible adj path - {n}"
    by (auto simp: admissible_def)
  ultimately show ?thesis by blast
qed

lemma adj_get_drop_self_loops:
  "adj_get (drop_self_loops adj) s = filter (\<lambda>(n, ps). n \<noteq> s) (adj_get adj s)"
  by (induction adj) (auto simp: adj_get_def drop_self_loops_def)

lemma fold_filter_skip:
  assumes "\<And>x st. x \<in> set xs \<Longrightarrow> \<not> Q x \<Longrightarrow> f x st = st"
    and "\<And>x st. x \<in> set xs \<Longrightarrow> Q x \<Longrightarrow> g x st = f x st"
  shows "fold g (filter Q xs) st = fold f xs st"
  using assms by (induction xs arbitrary: st) auto

lemma self_loops_never_traversed:
  "get_all_paths_rec (drop_self_loops adj_list) start end_node path0 st
     = get_all_paths_rec adj_list start end_node path0 st"
proof (induction adj_list start end_node path0 st rule: get_all_paths_rec.induct)
  case (1 adj_list start end_node path0 st)
  show ?case
  proof (cases "start = end_node")
    case True
    then show ?thesis
      by (subst (1 2) get_all_paths_rec.simps) (simp del: get_all_paths_rec.simps)
  next
    case False
    have "fold (\<lambda>(next_node, ps) s.
                   if next_node \<notin> set (path0 @ [start])
                   then get_all_paths_rec (drop_self_loops adj_list) next_node end_node
                          (path0 @ [start]) (accumulate ps s)
                   else s)
            (filter (\<lambda>(n, ps). n \<noteq> start) (adj_get adj_list start)) st
        = fold (\<lambda>(next_node, ps) s.
                   if next_node \<notin> set (path0 @ [start])
                   then get_all_paths_rec adj_list next_node end_node
                          (path0 @ [start]) (accumulate ps s)
                   else s)
            (adj_get adj_list start) st"
    proof (rule fold_filter_skip)
      fix x s
      assume "x \<in> set (adj_get adj_list start)"
        and skip: "\<not> (case x of (n, ps) \<Rightarrow> n \<noteq> start)"
      obtain n ps where "x = (n, ps)" by (cases x)
      with skip show "(case x of (next_node, ps) \<Rightarrow> \<lambda>s.
                   if next_node \<notin> set (path0 @ [start])
                   then get_all_paths_rec adj_list next_node end_node
                          (path0 @ [start]) (accumulate ps s)
                   else s) s = s"
        by (simp del: get_all_paths_rec.simps)
    next
      fix x s
      assume x: "x \<in> set (adj_get adj_list start)" "case x of (n, ps) \<Rightarrow> n \<noteq> start"
      obtain n ps where xp: "x = (n, ps)" by (cases x)
      show "(case x of (next_node, ps) \<Rightarrow> \<lambda>s.
                   if next_node \<notin> set (path0 @ [start])
                   then get_all_paths_rec (drop_self_loops adj_list) next_node end_node
                          (path0 @ [start]) (accumulate ps s)
                   else s) s
            = (case x of (next_node, ps) \<Rightarrow> \<lambda>s.
                   if next_node \<notin> set (path0 @ [start])
                   then get_all_paths_rec adj_list next_node end_node
                          (path0 @ [start]) (accumulate ps s)
                   else s) s"
      proof (cases "n \<in> set (path0 @ [start])")
        case True
        with xp show ?thesis by (auto simp del: get_all_paths_rec.simps)
      next
        case notin: False
        from "1.IH" [OF False x(1) xp [symmetric] notin]
        show ?thesis using xp notin by (simp del: get_all_paths_rec.simps)
      qed
    qed
    with False show ?thesis
      by (subst (1 2) get_all_paths_rec.simps)
        (simp del: get_all_paths_rec.simps add: adj_get_drop_self_loops)
  qed
qed

text \<open>
  C7. The depth-first search of the path enumerator terminates on every adjacency
  mapping: every argument is in the domain on which the recursion is well founded. The
  admissible nodes (targets of the graph not on the path) form a finite set, and each
  recursive call, made only for a target not yet on the path, has strictly fewer of them.
  A self-referencing edge is never traversed: the search runs exactly as on the graph
  without such edges.
\<close>

theorem enumerator_terminates:
  "get_all_paths_rec_dom (adj_list, start, end_node, path0, st)
   \<and> finite (admissible adj_list (path0 @ [start]))
   \<and> ((next_node, ps) \<in> set (adj_get adj_list start) \<and> next_node \<notin> set (path0 @ [start])
        \<longrightarrow> admissible adj_list ((path0 @ [start]) @ [next_node])
              \<subset> admissible adj_list (path0 @ [start]))
   \<and> get_all_paths_rec (drop_self_loops adj_list) start end_node path0 st
        = get_all_paths_rec adj_list start end_node path0 st"
  using get_all_paths_rec_total admissible_strict_subset self_loops_never_traversed
    finite_admissible
  by blast

theorem enumerator_terminates_witness:
  "get_all_paths_rec_dom (self_loop_graph, ''A'', ''B'', [], init_state)
   \<and> finite (admissible self_loop_graph [''A''])
   \<and> admissible self_loop_graph [''A'', ''B''] \<subset> admissible self_loop_graph [''A'']
   \<and> get_all_paths_rec (drop_self_loops self_loop_graph) ''A'' ''B'' [] init_state
        = get_all_paths_rec self_loop_graph ''A'' ''B'' [] init_state
   \<and> get_all_paths_with_purposes self_loop_graph ''A'' ''B'' = Some [([''A'', ''B''], [])]"
proof -
  have edge: "(''B'', []) \<in> set (adj_get self_loop_graph ''A'')"
    and new: "''B'' \<notin> set ([] @ [''A''])"
    by (simp_all add: adj_get_def self_loop_graph_def)
  have val: "get_all_paths_with_purposes self_loop_graph ''A'' ''B'' = Some [([''A'', ''B''], [])]"
    by (simp add: self_loop_graph_def get_all_paths_with_purposes_def init_state_def adj_get_def
        accumulate_def extend_category_def snapshot_value_def)
  from enumerator_terminates
    [of self_loop_graph "''A''" "''B''" "[]" init_state "''B''" "[]"] edge new val
  show ?thesis by simp
qed

section \<open>The table assembler\<close>

lemma extract_purposes_join: "extract_purposes inh = str_join '', '' (map fst inh)"
  by (simp add: extract_purposes_def)

lemma scan_links_spec:
  "list_all has_endpoints links \<Longrightarrow>
   scan_links root leaf inh links rows = Inr (rows @ spec_path_rows root leaf links inh)"
proof (induction links arbitrary: rows)
  case Nil
  then show ?case by (simp add: spec_path_rows_def)
next
  case (Cons i links)
  then obtain l s t where i: "i = Mapping l" "source l = Some s" "target l = Some t"
    by (cases i) auto
  from Cons have IH: "\<And>rows. scan_links root leaf inh links rows
      = Inr (rows @ spec_path_rows root leaf links inh)"
    by simp
  show ?case
    using i by (simp add: IH spec_path_rows_def make_row_def extract_purposes_join)
qed

lemma paths_loop_spec:
  "list_all has_endpoints links \<Longrightarrow>
   paths_loop links root leaf paths rows = Inr (rows @ spec_pair_rows root leaf links paths)"
proof (induction paths arbitrary: rows)
  case Nil
  then show ?case by (simp add: spec_pair_rows_def)
next
  case (Cons p paths)
  obtain path inh where p: "p = (path, inh)" by (cases p)
  from Cons have IH: "\<And>rows. paths_loop links root leaf paths rows
      = Inr (rows @ spec_pair_rows root leaf links paths)"
    by simp
  show ?case
    using p Cons.prems by (simp add: scan_links_spec IH spec_pair_rows_def)
qed

lemma spec_path_rows_length:
  "length (spec_path_rows root leaf links inh) = length (filter (spec_direct_edge root leaf) links)"
proof (induction links)
  case Nil
  then show ?case by (simp add: spec_path_rows_def)
next
  case (Cons i links)
  then show ?case by (cases i) (simp_all add: spec_path_rows_def)
qed

lemma spec_pair_rows_length:
  "length (spec_pair_rows root leaf links paths)
     = length paths * length (filter (spec_direct_edge root leaf) links)"
proof (induction paths)
  case Nil
  then show ?case by (simp add: spec_pair_rows_def)
next
  case (Cons p paths)
  obtain path inh where p: "p = (path, inh)" by (cases p)
  from Cons have "length (spec_pair_rows root leaf links paths)
      = length paths * length (filter (spec_direct_edge root leaf) links)" .
  moreover have "spec_pair_rows root leaf links (p # paths)
      = spec_path_rows root leaf links inh @ spec_pair_rows root leaf links paths"
    using p by (simp add: spec_pair_rows_def)
  ultimately show ?case by (simp add: spec_path_rows_length)
qed

lemma two_sorted:
  "a < b \<Longrightarrow> sorted_list_of_set {a, b} = [a, (b::string)]"
  "a < b \<Longrightarrow> sorted_list_of_set {b, a} = [a, (b::string)]"
  by (auto simp: sorted_list_of_set_insert_remove insort_key.simps)

lemma raised_gives_empty:
  assumes "isl (organize_links set_iter links)"
    and "safe_load yaml_content = Inr (Dict (Some (LinksList links)))"
  shows "process_yaml_to_organized_data safe_load set_iter yaml_content = []"
  using assms
  by (auto simp: process_yaml_to_organized_data_def try_block_def split: sum.splits)

lemma build_adjacency_loop_not_mapping:
  "NotMapping \<in> set links \<Longrightarrow> build_adjacency_loop links adj = Inl AttributeError"
  by (induction links adj rule: build_adjacency_loop.induct) (auto simp: Let_def)

lemma scan_links_raises:
  assumes "Mapping m \<in> set links"
    and "source m = None \<or> (source m = Some root \<and> target m = None)"
  shows "isl (scan_links root leaf inh links rows)"
  using assms
  by (induction root leaf inh links rows rule: scan_links.induct)
    (auto split: option.splits)

lemma paths_loop_raises:
  assumes "paths \<noteq> []" and "\<And>inh rows. isl (scan_links root leaf inh links rows)"
  shows "isl (paths_loop links root leaf paths rows)"
proof -
  from assms(1) obtain path inh ps where "paths = (path, inh) # ps"
    by (cases paths) auto
  with assms(2) [of inh rows] show ?thesis
    by (auto split: sum.splits)
qed

lemma leaves_loop_raises:
  assumes "leaf \<in> set leaves" and "\<And>rows. isl (pair_rows links adj_list root leaf rows)"
  shows "isl (leaves_loop links adj_list root leaves rows)"
  using assms(1)
proof (induction leaves arbitrary: rows)
  case Nil
  then show ?case by simp
next
  case (Cons l leaves)
  show ?case
  proof (cases "pair_rows links adj_list root l rows")
    case (Inl e)
    then show ?thesis by simp
  next
    case (Inr rows')
    with assms(2) [of rows] have "l \<noteq> leaf" by auto
    with Cons.prems have "leaf \<in> set leaves" by simp
    with Cons.IH Inr show ?thesis by simp
  qed
qed

lemma roots_loop_raises:
  assumes "root \<in> set roots" and "\<And>rows. isl (leaves_loop links adj_list root leaves rows)"
  shows "isl (roots_loop links adj_list roots leaves rows)"
  using assms(1)
proof (induction roots arbitrary: rows)
  case Nil
  then show ?case by simp
next
  case (Cons r roots)
  show ?case
  proof (cases "leaves_loop links adj_list r leaves rows")
    case (Inl e)
    then show ?thesis by simp
  next
    case (Inr rows')
    with assms(2) [of rows] have "r \<noteq> root" by auto
    with Cons.prems have "root \<in> set roots" by simp
    with Cons.IH Inr show ?thesis by simp
  qed
qed

lemma organize_links_raises:
  assumes order: "iteration_order set_iter"
    and pair: "pair_with_path links root leaf"
    and bad: "Mapping m \<in> set links"
      "source m = None \<or> (source m = Some root \<and> target m = None)"
  shows "isl (organize_links set_iter links)"
proof -
  from pair obtain adj_list R L paths
    where adj: "build_adjacency_list links = Inr adj_list"
      and R: "find_root_nodes links = Inr R" and L: "find_leaf_nodes links = Inr L"
      and mem: "root \<in> R" "leaf \<in> L"
      and paths: "get_all_paths_with_purposes adj_list root leaf = Some paths" "paths \<noteq> []"
    unfolding pair_with_path_def by (auto split: sum.splits option.splits)
  from roots_leaves_sets [OF R L] have "finite R" "finite L" by auto
  with order mem have it: "root \<in> set (set_iter R)" "leaf \<in> set (set_iter L)"
    by (simp_all add: iteration_order_def)
  have "isl (pair_rows links adj_list root leaf rows)" for rows
    unfolding pair_rows_def paths(1)
    using paths_loop_raises [OF paths(2) scan_links_raises [OF bad]] by simp
  then have "isl (leaves_loop links adj_list root (set_iter L) rows)" for rows
    using leaves_loop_raises [OF it(2)] by blast
  then have "isl (roots_loop links adj_list (set_iter R) (set_iter L) [])"
    using roots_loop_raises [OF it(1)] by blast
  then show ?thesis
    unfolding organize_links_def adj R L by (auto split: sum.splits)
qed

text \<open>
  C4, amended. For a document whose links are all mappings with the keys \<^verbatim>\<open>source\<close> and
  \<^verbatim>\<open>target\<close>, and a pair of a root and a leaf on which the enumerator returns a list of
  paths, the assembler appends, for each returned path in turn, one row for each direct
  edge from the root to the leaf: the row has the leaf, the root, the category names
  returned with that path joined by a comma and a space, and the direct edge's text
  joined by newlines. So each path gives as many rows as there are direct edges, and
  none when there is no direct edge.
\<close>

theorem rows_need_direct_edge:
  assumes "list_all has_endpoints links"
    and "get_all_paths_with_purposes adj_list root leaf = Some paths"
  shows "pair_rows links adj_list root leaf rows
           = Inr (rows @ spec_pair_rows root leaf links paths)
    \<and> length (spec_pair_rows root leaf links paths)
           = length paths * length (filter (spec_direct_edge root leaf) links)
    \<and> (spec_pair_rows root leaf links paths \<noteq> []
         \<longleftrightarrow> paths \<noteq> [] \<and> list_ex (spec_direct_edge root leaf) links)"
proof -
  have rows: "pair_rows links adj_list root leaf rows
      = Inr (rows @ spec_pair_rows root leaf links paths)"
    using assms by (simp add: pair_rows_def paths_loop_spec)
  have len: "length (spec_pair_rows root leaf links paths)
      = length paths * length (filter (spec_direct_edge root leaf) links)"
    by (rule spec_pair_rows_length)
  have "spec_pair_rows root leaf links paths \<noteq> []
      \<longleftrightarrow> length (spec_pair_rows root leaf links paths) \<noteq> 0"
    by simp
  also have "\<dots> \<longleftrightarrow> paths \<noteq> [] \<and> filter (spec_direct_edge root leaf) links \<noteq> []"
    unfolding len by simp
  also have "\<dots> \<longleftrightarrow> paths \<noteq> [] \<and> list_ex (spec_direct_edge root leaf) links"
    by (simp add: filter_empty_conv list_ex_iff)
  finally show ?thesis using rows len by simp
qed



theorem rows_need_direct_edge_witness:
  "pair_rows [Mapping single_edge] [(''A'', [(''B'', [(''p1'', [''x''])])])] ''A'' ''B'' []
     = Inr [\<lparr>data_type = ''B'', collector = ''A'', purpose = ''p1'', text_col = ''hello''\<rparr>]
   \<and> length (spec_pair_rows ''A'' ''B'' [Mapping single_edge]
        [([''A'', ''B''], [(''p1'', [''x''])])]) = 1
   \<and> list_ex (spec_direct_edge ''A'' ''B'') [Mapping single_edge]"
proof -
  have wf: "list_all has_endpoints [Mapping single_edge]"
    by (simp add: single_edge_def)
  have paths: "get_all_paths_with_purposes [(''A'', [(''B'', [(''p1'', [''x''])])])] ''A'' ''B''
      = Some [([''A'', ''B''], [(''p1'', [''x''])])]"
    by (simp add: get_all_paths_with_purposes_def init_state_def adj_get_def
        accumulate_def extend_category_def snapshot_value_def)
  have spec: "spec_pair_rows ''A'' ''B'' [Mapping single_edge]
        [([''A'', ''B''], [(''p1'', [''x''])])]
      = [\<lparr>data_type = ''B'', collector = ''A'', purpose = ''p1'', text_col = ''hello''\<rparr>]"
    by (simp add: spec_pair_rows_def spec_path_rows_def single_edge_def)
  note inst = rows_need_direct_edge [OF wf paths, of "[]", unfolded spec]
  from inst have a: "pair_rows [Mapping single_edge] [(''A'', [(''B'', [(''p1'', [''x''])])])]
      ''A'' ''B'' []
     = Inr [\<lparr>data_type = ''B'', collector = ''A'', purpose = ''p1'', text_col = ''hello''\<rparr>]"
    by simp
  from inst have c: "list_ex (spec_direct_edge ''A'' ''B'') [Mapping single_edge]"
    by blast
  from a c show ?thesis by (simp only: spec) simp
qed

text \<open>
  C4 as stated fails on a document with a record that lacks \<^verbatim>\<open>source\<close>: the links hold
  the direct edge from \<open>A\<close> to \<open>B\<close> and the enumerator finds the path, yet scanning the
  links raises on the other record and the table is empty.
\<close>

theorem direct_edge_without_row:
  "list_ex (spec_direct_edge ''A'' ''B'') [Mapping link_without_source, Mapping single_edge]
   \<and> build_adjacency_list [Mapping link_without_source, Mapping single_edge]
       = Inr [(''A'', [(''B'', [(''p1'', [''x''])])])]
   \<and> get_all_paths_with_purposes [(''A'', [(''B'', [(''p1'', [''x''])])])] ''A'' ''B''
       = Some [([''A'', ''B''], [(''p1'', [''x''])])]
   \<and> pair_rows [Mapping link_without_source, Mapping single_edge]
        [(''A'', [(''B'', [(''p1'', [''x''])])])] ''A'' ''B'' [] = Inl KeyError
   \<and> process_yaml_to_organized_data
        (\<lambda>_. Inr (Dict (Some (LinksList [Mapping link_without_source, Mapping single_edge]))))
        sorted_list_of_set [] = []"
proof -
  have direct: "list_ex (spec_direct_edge ''A'' ''B'')
      [Mapping link_without_source, Mapping single_edge]"
    by (simp add: single_edge_def)
  have adj: "build_adjacency_list [Mapping link_without_source, Mapping single_edge]
       = Inr [(''A'', [(''B'', [(''p1'', [''x''])])])]"
    by (simp add: build_adjacency_list_def single_edge_def link_without_source_def adj_append_def)
  have paths: "get_all_paths_with_purposes [(''A'', [(''B'', [(''p1'', [''x''])])])] ''A'' ''B''
       = Some [([''A'', ''B''], [(''p1'', [''x''])])]"
    by (simp add: get_all_paths_with_purposes_def init_state_def adj_get_def
        accumulate_def extend_category_def snapshot_value_def)
  have scan: "scan_links ''A'' ''B'' [(''p1'', [''x''])]
      [Mapping link_without_source, Mapping single_edge] [] = Inl KeyError"
    by (simp add: link_without_source_def)
  have raised: "pair_rows [Mapping link_without_source, Mapping single_edge]
        [(''A'', [(''B'', [(''p1'', [''x''])])])] ''A'' ''B'' [] = Inl KeyError"
    by (simp only: pair_rows_def paths option.case paths_loop.simps scan sum.case)
  have r: "find_root_nodes [Mapping link_without_source, Mapping single_edge]
      = Inr {'''', ''A''}"
    by (simp add: find_root_nodes_def link_without_source_def single_edge_def)
  have l: "find_leaf_nodes [Mapping link_without_source, Mapping single_edge] = Inr {''B''}"
    by (simp add: find_leaf_nodes_def link_without_source_def single_edge_def)
  have pair: "pair_with_path [Mapping link_without_source, Mapping single_edge] ''A'' ''B''"
    by (simp only: pair_with_path_def adj r l paths sum.case option.case) simp
  have "isl (organize_links sorted_list_of_set
      [Mapping link_without_source, Mapping single_edge])"
    by (rule organize_links_raises [OF sorted_list_iteration_order pair, of link_without_source])
      (simp_all add: link_without_source_def)
  then have "process_yaml_to_organized_data
        (\<lambda>_. Inr (Dict (Some (LinksList [Mapping link_without_source, Mapping single_edge]))))
        sorted_list_of_set [] = []"
    by (rule raised_gives_empty) simp
  with direct adj paths raised show ?thesis by simp
qed
text \<open>
  C10, amended. The entry point returns an empty table when some element of the links is
  not a mapping; and when some pair of a root and a leaf yields a path and some element
  lacks the key \<^verbatim>\<open>source\<close>, or lacks the key \<^verbatim>\<open>target\<close> while its source is the root of
  such a pair.
\<close>

theorem malformed_record_empties_table:
  assumes "iteration_order set_iter"
    and "safe_load yaml_content = Inr (Dict (Some (LinksList links)))"
    and "NotMapping \<in> set links
      \<or> (pair_with_path links root leaf \<and> Mapping m \<in> set links
          \<and> (source m = None \<or> (source m = Some root \<and> target m = None)))"
  shows "process_yaml_to_organized_data safe_load set_iter yaml_content = []"
proof -
  have "isl (organize_links set_iter links)"
  proof (cases "NotMapping \<in> set links")
    case True
    then show ?thesis
      by (simp add: organize_links_def build_adjacency_list_def build_adjacency_loop_not_mapping)
  next
    case False
    with assms(3) show ?thesis
      using organize_links_raises [OF assms(1)] by blast
  qed
  with assms(2) show ?thesis
    by (auto simp: process_yaml_to_organized_data_def try_block_def split: sum.splits)
qed

theorem malformed_record_empties_table_witness:
  "process_yaml_to_organized_data
     (\<lambda>_. Inr (Dict (Some (LinksList [Mapping single_edge, Mapping root_link_without_target]))))
     sorted_list_of_set [] = []
   \<and> process_yaml_to_organized_data
     (\<lambda>_. Inr (Dict (Some (LinksList [Mapping single_edge, NotMapping]))))
     sorted_list_of_set [] = []"
proof -
  have pair: "pair_with_path [Mapping single_edge, Mapping root_link_without_target] ''A'' ''B''"
    by (simp add: pair_with_path_def build_adjacency_list_def find_root_nodes_def
        find_leaf_nodes_def single_edge_def root_link_without_target_def adj_append_def
        get_all_paths_with_purposes_def init_state_def adj_get_def
        accumulate_def extend_category_def snapshot_value_def)
  have bad: "Mapping root_link_without_target
        \<in> set [Mapping single_edge, Mapping root_link_without_target]"
      "source root_link_without_target = Some ''A''" "target root_link_without_target = None"
    by (simp_all add: root_link_without_target_def)
  have one: "process_yaml_to_organized_data
     (\<lambda>_. Inr (Dict (Some (LinksList [Mapping single_edge, Mapping root_link_without_target]))))
     sorted_list_of_set [] = []"
    by (rule malformed_record_empties_table [OF sorted_list_iteration_order refl])
      (use pair bad in blast)
  have two: "process_yaml_to_organized_data
     (\<lambda>_. Inr (Dict (Some (LinksList [Mapping single_edge, NotMapping]))))
     sorted_list_of_set [] = []"
    by (rule malformed_record_empties_table [OF sorted_list_iteration_order refl]) simp
  from one two show ?thesis by simp
qed


text \<open>
  C10 as stated fails on a record that lacks \<^verbatim>\<open>target\<close> and whose source is no root of
  a pair with a path: the pair of \<open>A\<close> and \<open>B\<close> yields a path, the record from \<open>X\<close> lacks
  its target, and the table still holds the row of the edge from \<open>A\<close> to \<open>B\<close>.
\<close>

theorem missing_target_keeps_rows:
  "pair_with_path [Mapping single_edge, Mapping link_without_target] ''A'' ''B''
   \<and> target link_without_target = None
   \<and> process_yaml_to_organized_data
        (\<lambda>_. Inr (Dict (Some (LinksList [Mapping single_edge, Mapping link_without_target]))))
        sorted_list_of_set []
       = [\<lparr>data_type = ''B'', collector = ''A'', purpose = ''p1'', text_col = ''hello''\<rparr>]"
proof -
  have adj: "build_adjacency_list [Mapping single_edge, Mapping link_without_target]
       = Inr [(''A'', [(''B'', [(''p1'', [''x''])])])]"
    by (simp add: build_adjacency_list_def single_edge_def link_without_target_def adj_append_def)
  have r: "find_root_nodes [Mapping single_edge, Mapping link_without_target]
      = Inr {''A'', ''X''}"
    by (simp add: find_root_nodes_def link_without_target_def single_edge_def)
  have l: "find_leaf_nodes [Mapping single_edge, Mapping link_without_target]
      = Inr {''B'', ''''}"
    by (simp add: find_leaf_nodes_def link_without_target_def single_edge_def)
  have rs: "sorted_list_of_set {''A'', ''X''} = [''A'', ''X'']"
    by (simp add: two_sorted less_char_def)
  have ls: "sorted_list_of_set {''B'', ''''} = ['''', ''B'']"
    by (simp add: two_sorted)
  have p1: "get_all_paths_with_purposes [(''A'', [(''B'', [(''p1'', [''x''])])])] ''A'' ''''
       = Some []"
    by (simp add: get_all_paths_with_purposes_def init_state_def adj_get_def
        accumulate_def extend_category_def snapshot_value_def)
  have p2: "get_all_paths_with_purposes [(''A'', [(''B'', [(''p1'', [''x''])])])] ''A'' ''B''
       = Some [([''A'', ''B''], [(''p1'', [''x''])])]"
    by (simp add: get_all_paths_with_purposes_def init_state_def adj_get_def
        accumulate_def extend_category_def snapshot_value_def)
  have p3: "get_all_paths_with_purposes [(''A'', [(''B'', [(''p1'', [''x''])])])] ''X'' ''''
       = Some []"
    by (simp add: get_all_paths_with_purposes_def init_state_def adj_get_def)
  have p4: "get_all_paths_with_purposes [(''A'', [(''B'', [(''p1'', [''x''])])])] ''X'' ''B''
       = Some []"
    by (simp add: get_all_paths_with_purposes_def init_state_def adj_get_def)
  have scan: "scan_links ''A'' ''B'' [(''p1'', [''x''])]
      [Mapping single_edge, Mapping link_without_target] []
      = Inr [\<lparr>data_type = ''B'', collector = ''A'', purpose = ''p1'', text_col = ''hello''\<rparr>]"
    by (simp add: single_edge_def link_without_target_def make_row_def extract_purposes_def)
  have rows: "roots_loop [Mapping single_edge, Mapping link_without_target]
      [(''A'', [(''B'', [(''p1'', [''x''])])])] [''A'', ''X''] ['''', ''B''] []
      = Inr [\<lparr>data_type = ''B'', collector = ''A'', purpose = ''p1'', text_col = ''hello''\<rparr>]"
    by (simp only: roots_loop.simps leaves_loop.simps pair_rows_def p1 p2 p3 p4 option.case
        paths_loop.simps scan sum.case)
  have pair: "pair_with_path [Mapping single_edge, Mapping link_without_target] ''A'' ''B''"
    by (simp only: pair_with_path_def adj r l p2 sum.case option.case) simp
  have tgt: "target link_without_target = None"
    by (simp add: link_without_target_def)
  have "organize_links sorted_list_of_set [Mapping single_edge, Mapping link_without_target]
      = Inr [\<lparr>data_type = ''B'', collector = ''A'', purpose = ''p1'', text_col = ''hello''\<rparr>]"
    by (simp only: organize_links_def adj r l sum.case rs ls rows)
      (simp add: drop_duplicates_def sort_values_def)
  then have "process_yaml_to_organized_data
        (\<lambda>_. Inr (Dict (Some (LinksList [Mapping single_edge, Mapping link_without_target]))))
        sorted_list_of_set []
       = [\<lparr>data_type = ''B'', collector = ''A'', purpose = ''p1'', text_col = ''hello''\<rparr>]"
    by (simp add: process_yaml_to_organized_data_def try_block_def)
  with pair tgt show ?thesis by simp
qed

end
